theory Spec2Isabelle
  imports Complex_Main "HOL-Library.Multiset"
begin

section \<open>Python and numpy primitives used by \<open>giefstat/time_series/util.py\<close>\<close>

text \<open>
  The module raises no exception of its own; every failure comes from an indexing,
  dictionary or reshape primitive. Each of them is a branch of the model.
\<close>

datatype py_error = IndexError | KeyError | ValueError

text \<open>\<open>np.arange(a, b)\<close> on Python integers: \<open>a, a+1, ..., b-1\<close>, empty when \<open>b \<le> a\<close>.\<close>

definition np_arange :: "int \<Rightarrow> int \<Rightarrow> int list" where
  "np_arange a b = [a..b - 1]"

text \<open>
  \<open>x[idxs]\<close> for a one-dimensional array \<open>x\<close> and an integer index array: an index
  \<open>i\<close> with \<open>-len(x) \<le> i < 0\<close> counts from the end, any index outside
  \<open>[-len(x), len(x))\<close> raises \<open>IndexError\<close>.
\<close>

definition np_take :: "'a list \<Rightarrow> int list \<Rightarrow> py_error + 'a list" where
  "np_take x idxs =
     (if list_all (\<lambda>i. - int (length x) \<le> i \<and> i < int (length x)) idxs
      then Inr (map (\<lambda>i. x ! nat (if i < 0 then i + int (length x) else i)) idxs)
      else Inl IndexError)"

text \<open>
  \<open>np.c_[col, X]\<close>: the one-dimensional \<open>col\<close> becomes a new first column of \<open>X\<close>.
  A matrix is the list of its rows; the one-dimensional start value \<open>x[idxs]\<close> of the
  embedding is a matrix of one-element rows, which is how \<open>np.c_\<close> reads it.
\<close>

definition np_c :: "'a list \<Rightarrow> 'a list list \<Rightarrow> 'a list list" where
  "np_c col X = map2 (#) col X"

text \<open>
  \<open>X.reshape(len(X), -1)\<close>: numpy infers the free dimension as \<open>size / len(X)\<close> and
  raises \<open>ValueError\<close> (cannot reshape array of size 0) when the known dimension is 0;
  otherwise the rows are unchanged.
\<close>

definition np_reshape_rows :: "'a list list \<Rightarrow> py_error + 'a list list" where
  "np_reshape_rows X = (if length X = 0 then Inl ValueError else Inr X)"

text \<open>
  \<open>np.argsort\<close> of one row: the positions of the row's entries in ascending order of
  value. Equal values are taken in order of position (a stable sort); numpy promises no
  order for them, and only the all-zero symbols of a zero delay (claim C6) rest on it.
  The entries are ordered by a linear order: integers, reals; \<open>nan\<close> is not modelled.
\<close>

definition np_argsort :: "'a::linorder list \<Rightarrow> nat list" where
  "np_argsort row = map snd (sort_key fst (zip row [0..<length row]))"

text \<open>
  \<open>itertools.permutations\<close>: all orderings of the input, emitted in lexicographic order
  of the input positions.
\<close>

fun permutations :: "'a list \<Rightarrow> 'a list list" where
  "permutations [] = [[]]"
| "permutations (x # xs) =
     concat (map (\<lambda>i. map ((#) ((x # xs) ! i))
                          (permutations (take i (x # xs) @ drop (Suc i) (x # xs))))
                 [0..<Suc (length xs)])"

section \<open>Ordinal symbolization\<close>

text \<open>\<open>{patterns[i]: i for i in range(len(patterns))}\<close>: a later entry overwrites.\<close>

definition dict_pattern_index :: "int list list \<Rightarrow> (int list \<rightharpoonup> nat)" where
  "dict_pattern_index patterns =
     fold (\<lambda>i d. d(patterns ! i \<mapsto> i)) [0..<length patterns] Map.empty"

text \<open>The loop \<open>for i in range(1, m): X_embed = np.c_[x[idxs - i * tau], X_embed]\<close>.\<close>

fun embed_cols :: "'a list \<Rightarrow> int list \<Rightarrow> int \<Rightarrow> int list \<Rightarrow> 'a list list
    \<Rightarrow> py_error + 'a list list" where
  "embed_cols x idxs tau [] X_embed = Inr X_embed"
| "embed_cols x idxs tau (i # rest) X_embed =
     (case np_take x (map (\<lambda>idx. idx - i * tau) idxs) of
        Inl e \<Rightarrow> Inl e
      | Inr col \<Rightarrow> embed_cols x idxs tau rest (np_c col X_embed))"

definition build_embed_series :: "'a list \<Rightarrow> int list \<Rightarrow> int \<Rightarrow> int
    \<Rightarrow> py_error + 'a list list" where
  "build_embed_series x idxs m tau =
     (case np_take x idxs of
        Inl e \<Rightarrow> Inl e
      | Inr col0 \<Rightarrow>
          (case embed_cols x idxs tau [1..m - 1] (map (\<lambda>v. [v]) col0) of
             Inl e \<Rightarrow> Inl e
           | Inr X_embed \<Rightarrow> np_reshape_rows X_embed))"

text \<open>One row of \<open>np.argsort(X_embed) + 1\<close>.\<close>

definition ordinal_pattern :: "'a::linorder list \<Rightarrow> int list" where
  "ordinal_pattern row = map (\<lambda>j. int j + 1) (np_argsort row)"

text \<open>\<open>[dict_pattern_index[tuple(p)] for p in X]\<close>: the first missing key raises.\<close>

fun lookup_symbols :: "(int list \<rightharpoonup> nat) \<Rightarrow> int list list \<Rightarrow> py_error + nat list" where
  "lookup_symbols d [] = Inr []"
| "lookup_symbols d (p # ps) =
     (case d p of
        None \<Rightarrow> Inl KeyError
      | Some s \<Rightarrow>
          (case lookup_symbols d ps of
             Inl e \<Rightarrow> Inl e
           | Inr ss \<Rightarrow> Inr (s # ss)))"

definition valid_idxs :: "'a list \<Rightarrow> int \<Rightarrow> int \<Rightarrow> int \<Rightarrow> int list" where
  "valid_idxs x m tau_x tau_y = np_arange ((m - 1) * max tau_x tau_y) (int (length x))"

definition continuously_symbolize :: "'a::linorder list \<Rightarrow> 'a list \<Rightarrow> int \<Rightarrow> int \<Rightarrow> int
    \<Rightarrow> py_error + (nat list \<times> nat list)" where
  "continuously_symbolize x y m tau_x tau_y =
     (let patterns = permutations [1..m];
          d = dict_pattern_index patterns;
          idxs = valid_idxs x m tau_x tau_y
      in case build_embed_series x idxs m tau_x of
           Inl e \<Rightarrow> Inl e
         | Inr X_embed \<Rightarrow>
             (case build_embed_series y idxs m tau_y of
                Inl e \<Rightarrow> Inl e
              | Inr Y_embed \<Rightarrow>
                  (case lookup_symbols d (map ordinal_pattern X_embed) of
                     Inl e \<Rightarrow> Inl e
                   | Inr X \<Rightarrow>
                       (case lookup_symbols d (map ordinal_pattern Y_embed) of
                          Inl e \<Rightarrow> Inl e
                        | Inr Y \<Rightarrow> Inr (X, Y)))))"

text \<open>
  The row the embedding is meant to hold for index \<open>idx\<close>: the samples at
  \<open>idx - (m-1) tau, ..., idx - tau, idx\<close>, oldest first, read without wrap-around.
  It is the reference the embedding built by the code is compared with.
\<close>

definition delay_window :: "'a list \<Rightarrow> int \<Rightarrow> int \<Rightarrow> int \<Rightarrow> 'a list" where
  "delay_window x tau m idx = map (\<lambda>i. x ! nat (idx - i * tau)) (rev [0..m - 1])"

section \<open>Peak parsing\<close>

text \<open>
  The TE values are modelled as real numbers. numpy's \<open>nan\<close> appears in one place only,
  the mean and standard deviation of an empty array; it is the value \<open>None\<close>, and a
  comparison with it is false, as in IEEE arithmetic. numpy computes on IEEE doubles:
  rounding, overflow and underflow are not modelled, and the results below evaluate the
  statistics only on values far from where they matter.
\<close>

text \<open>Python's list slices \<open>xs[:e]\<close> and \<open>xs[s:]\<close>: a negative bound counts from the end.\<close>

definition py_slice_to :: "int \<Rightarrow> 'a list \<Rightarrow> 'a list" where
  "py_slice_to e xs = take (nat (if e < 0 then int (length xs) + e else e)) xs"

definition py_slice_from :: "int \<Rightarrow> 'a list \<Rightarrow> 'a list" where
  "py_slice_from s xs = drop (nat (if s < 0 then int (length xs) + s else s)) xs"

text \<open>\<open>xs[p]\<close> for an index \<open>p \<ge> 0\<close>, and \<open>[xs[p] for p in ps]\<close>.\<close>

definition py_index :: "'a list \<Rightarrow> nat \<Rightarrow> py_error + 'a" where
  "py_index xs p = (if p < length xs then Inr (xs ! p) else Inl IndexError)"

fun index_all :: "'a list \<Rightarrow> nat list \<Rightarrow> py_error + 'a list" where
  "index_all xs [] = Inr []"
| "index_all xs (p # ps) =
     (case py_index xs p of
        Inl e \<Rightarrow> Inl e
      | Inr v \<Rightarrow> (case index_all xs ps of Inl e \<Rightarrow> Inl e | Inr vs \<Rightarrow> Inr (v # vs)))"

text \<open>\<open>np.mean\<close> and \<open>np.std\<close> (the population standard deviation, \<open>ddof = 0\<close>).\<close>

definition np_mean :: "real list \<Rightarrow> real option" where
  "np_mean xs = (if xs = [] then None else Some (sum_list xs / real (length xs)))"

definition np_std :: "real list \<Rightarrow> real option" where
  "np_std xs =
     (case np_mean xs of
        None \<Rightarrow> None
      | Some mu \<Rightarrow> Some (sqrt (sum_list (map (\<lambda>v. (v - mu)\<^sup>2) xs) / real (length xs))))"

text \<open>\<open>_mean + 3 * _std\<close>, and \<open>a > b\<close> for a possibly undefined \<open>b\<close>.\<close>

definition three_sigma_bound :: "real list \<Rightarrow> real option" where
  "three_sigma_bound series =
     (case (np_mean series, np_std series) of
        (Some mu, Some sd) \<Rightarrow> Some (mu + 3 * sd)
      | _ \<Rightarrow> None)"

definition nan_gt :: "real \<Rightarrow> real option \<Rightarrow> bool" where
  "nan_gt a b = (case b of None \<Rightarrow> False | Some v \<Rightarrow> v < a)"

text \<open>
  \<open>_series = np.append(td_te_means[: _n], td_te_means[-_n :])\<close> with
  \<open>_n = len(td_lags) // 10\<close>. The second slice is written as in the source: its start is
  \<open>-_n\<close>, which is \<open>0\<close> when \<open>_n = 0\<close>.
\<close>

definition edge_series :: "'l list \<Rightarrow> real list \<Rightarrow> real list" where
  "edge_series td_lags td_te_means =
     (let n = int (length td_lags div 10)
      in py_slice_to n td_te_means @ py_slice_from (- n) td_te_means)"

text \<open>
  The significance flag of one peak (source line 57). The loop runs after
  \<open>td_te_means[p]\<close> has been read for every peak index (line 50), so \<open>td_te_means[idx]\<close>
  is in range here.
\<close>

definition peak_signif :: "'l list \<Rightarrow> real list \<Rightarrow> real \<Rightarrow> nat \<Rightarrow> bool" where
  "peak_signif td_lags td_te_means ci_bg_ub idx =
     (ci_bg_ub < td_te_means ! idx
      \<and> nan_gt (td_te_means ! idx) (three_sigma_bound (edge_series td_lags td_te_means)))"

text \<open>
  \<open>scipy.signal.find_peaks\<close> is a library function outside the repository.
  \<open>parse_peaks\<close> takes it as a parameter: a function of the mean series, \<open>height\<close>,
  \<open>distance\<close>, \<open>prominence\<close> and \<open>wlen\<close> that returns the peak indices or raises.
\<close>

type_synonym peak_finder = "real list \<Rightarrow> real \<Rightarrow> int \<Rightarrow> real \<Rightarrow> nat \<Rightarrow> py_error + nat list"

definition parse_peaks :: "peak_finder \<Rightarrow> int \<Rightarrow> 'l list \<Rightarrow> (real \<times> real) list \<Rightarrow> real
    \<Rightarrow> real option \<Rightarrow> int option \<Rightarrow> real option
    \<Rightarrow> py_error + (nat list \<times> 'l list \<times> real list \<times> real list \<times> bool list)" where
  "parse_peaks find_peaks tau_x td_lags td_te_info ci_bg_ub thres distance prominence =
     (let thres = (case thres of None \<Rightarrow> ci_bg_ub | Some t \<Rightarrow> t);
          distance = (case distance of None \<Rightarrow> 2 * tau_x | Some d \<Rightarrow> d);
          prominence = (case prominence of None \<Rightarrow> 0.01 | Some p \<Rightarrow> p);
          td_te_means = map fst td_te_info;
          td_te_stds = map snd td_te_info
      in case find_peaks td_te_means thres distance prominence (max 2 (length td_lags div 2)) of
           Inl e \<Rightarrow> Inl e
         | Inr peak_idxs \<Rightarrow>
             if length peak_idxs = 0 then Inr (peak_idxs, [], [], [], [])
             else
               (case index_all td_lags peak_idxs of
                  Inl e \<Rightarrow> Inl e
                | Inr peak_taus \<Rightarrow>
                    (case index_all td_te_means peak_idxs of
                       Inl e \<Rightarrow> Inl e
                     | Inr peak_strengths \<Rightarrow>
                         (case index_all td_te_stds peak_idxs of
                            Inl e \<Rightarrow> Inl e
                          | Inr peak_stds \<Rightarrow>
                              Inr (peak_idxs, peak_taus, peak_strengths, peak_stds,
                                   map (peak_signif td_lags td_te_means ci_bg_ub) peak_idxs)))))"

text \<open>
  The reference sample in the specification's words: the first and the last
  \<open>N\<close> mean-TE values, concatenated. It is what \<open>edge_series\<close> is compared with.
\<close>

definition spec_reference_sample :: "nat \<Rightarrow> 'a list \<Rightarrow> 'a list" where
  "spec_reference_sample N xs = take N xs @ drop (length xs - N) xs"

subsection \<open>The peak finder\<close>

text \<open>
  Modelled from the spec: \<open>scipy.signal.find_peaks\<close> is not part of the sources; the
  specification describes it as local-maxima extraction constrained by a minimum height,
  a minimum horizontal separation, a minimum prominence and a local search window,
  returning indices in increasing order. The model follows scipy's documented behaviour
  for these four constraints. \<open>scan_maxima\<close> walks the series once: \<open>rising\<close> holds the
  start of the plateau that began with a strict rise; a strict fall closes it and reports
  its middle. A plateau that touches either end of the series is no peak.
\<close>

fun scan_maxima :: "real list \<Rightarrow> nat \<Rightarrow> real \<Rightarrow> nat option \<Rightarrow> nat list" where
  "scan_maxima [] i prev rising = []"
| "scan_maxima (v # vs) i prev rising =
     (if prev < v then scan_maxima vs (Suc i) v (Some i)
      else if v = prev then scan_maxima vs (Suc i) v rising
      else (case rising of
              None \<Rightarrow> scan_maxima vs (Suc i) v None
            | Some l \<Rightarrow> ((l + (i - 1)) div 2) # scan_maxima vs (Suc i) v None))"

text \<open>Modelled from the spec: the local maxima of the series, in increasing order.\<close>

definition local_maxima :: "real list \<Rightarrow> nat list" where
  "local_maxima x = (case x of [] \<Rightarrow> [] | x0 # rest \<Rightarrow> scan_maxima rest 1 x0 None)"

text \<open>
  Modelled from the spec: minimum horizontal separation. Candidates are visited from the
  highest to the lowest; one is kept unless a kept peak lies closer than \<open>d\<close> samples.
\<close>

fun keep_by_distance :: "nat list \<Rightarrow> int \<Rightarrow> nat list \<Rightarrow> nat list" where
  "keep_by_distance [] d kept = kept"
| "keep_by_distance (c # cs) d kept =
     (if list_ex (\<lambda>k. \<bar>int c - int k\<bar> < d) kept then keep_by_distance cs d kept
      else keep_by_distance cs d (c # kept))"

text \<open>Modelled from the spec: the peaks that survive the separation rule, in index order.\<close>

definition select_by_peak_distance :: "real list \<Rightarrow> nat list \<Rightarrow> int \<Rightarrow> nat list" where
  "select_by_peak_distance x peaks d =
     (let kept = keep_by_distance (rev (sort_key (\<lambda>p. x ! p) peaks)) d []
      in filter (\<lambda>p. p \<in> set kept) peaks)"

text \<open>
  Modelled from the spec: the lowest value met walking away from a peak of height \<open>h\<close>,
  up to the first value above \<open>h\<close> or the end of the search window.
\<close>

fun base_min :: "real \<Rightarrow> real \<Rightarrow> real list \<Rightarrow> real" where
  "base_min h cur [] = cur"
| "base_min h cur (v # vs) = (if v \<le> h then base_min h (min cur v) vs else cur)"

text \<open>
  Modelled from the spec: the prominence of the peak at \<open>p\<close> within the window of
  \<open>wlen div 2\<close> samples on either side: its height above the higher of its two bases.
\<close>

definition peak_prominence :: "real list \<Rightarrow> nat \<Rightarrow> nat \<Rightarrow> real" where
  "peak_prominence x wlen p =
     (let i_min = p - wlen div 2;
          i_max = min (p + wlen div 2) (length x - 1);
          left_min = base_min (x ! p) (x ! p) (rev (drop i_min (take p x)));
          right_min = base_min (x ! p) (x ! p) (take (i_max - p) (drop (Suc p) x))
      in x ! p - max left_min right_min)"

text \<open>
  Modelled from the spec: the peak finder with the four constraints \<open>parse_peaks\<close> passes.
  scipy rejects \<open>distance < 1\<close> and \<open>wlen \<le> 1\<close> with \<open>ValueError\<close>.
\<close>

definition find_peaks :: "real list \<Rightarrow> real \<Rightarrow> int \<Rightarrow> real \<Rightarrow> nat \<Rightarrow> py_error + nat list" where
  "find_peaks x height distance prominence wlen =
     (if distance < 1 then Inl ValueError
      else
        (let peaks = local_maxima x;
             peaks = filter (\<lambda>p. height \<le> x ! p) peaks;
             peaks = select_by_peak_distance x peaks distance
         in if wlen \<le> 1 then Inl ValueError
            else Inr (filter (\<lambda>p. prominence \<le> peak_prominence x wlen p) peaks)))"

section \<open>Properties of the primitives\<close>

subsection \<open>Permutations\<close>

lemma permutations_nonempty:
  "xs \<noteq> [] \<Longrightarrow> permutations xs =
     concat (map (\<lambda>i. map ((#) (xs ! i)) (permutations (take i xs @ drop (Suc i) xs)))
                 [0..<length xs])"
  by (cases xs) (simp_all del: upt_Suc)

lemma length_remove_nth: "i < length xs \<Longrightarrow> length (take i xs @ drop (Suc i) xs) = length xs - 1"
  by (simp add: min_def)

lemma remove_nth_induct [case_names Nil Step]:
  assumes "P []"
    and "\<And>xs. xs \<noteq> [] \<Longrightarrow> (\<And>i. i < length xs \<Longrightarrow> P (take i xs @ drop (Suc i) xs)) \<Longrightarrow> P xs"
  shows "P xs"
proof (induction xs rule: length_induct)
  case (1 xs)
  show ?case
  proof (cases "xs = []")
    case True
    then show ?thesis using assms(1) by simp
  next
    case False
    have "P (take i xs @ drop (Suc i) xs)" if "i < length xs" for i
    proof -
      have "length (take i xs @ drop (Suc i) xs) < length xs"
        using that length_remove_nth[OF that] by simp
      then show ?thesis using 1 by blast
    qed
    then show ?thesis using assms(2) False by blast
  qed
qed

lemma length_permutations: "length (permutations xs) = fact (length xs)"
proof (induction xs rule: remove_nth_induct)
  case Nil
  show ?case by simp
next
  case (Step xs)
  let ?f = "\<lambda>i. map ((#) (xs ! i)) (permutations (take i xs @ drop (Suc i) xs))"
  have eq: "map (\<lambda>i. length (?f i)) [0..<length xs] = map (\<lambda>i. fact (length xs - 1)) [0..<length xs]"
  proof (rule map_cong[OF refl])
    fix i assume "i \<in> set [0..<length xs]"
    then have i: "i < length xs" by (simp only: set_upt atLeastLessThan_iff)
    show "length (?f i) = fact (length xs - 1)"
      using Step.IH[OF i] length_remove_nth[OF i] by simp
  qed
  have "length (permutations xs) = sum_list (map (\<lambda>i. length (?f i)) [0..<length xs])"
    unfolding permutations_nonempty[OF Step.hyps] by (simp only: length_concat map_map comp_def)
  also have "\<dots> = length xs * fact (length xs - 1)"
    unfolding eq by (simp add: sum_list_triv)
  also have "\<dots> = fact (length xs)"
    using Step.hyps by (cases xs) simp_all
  finally show ?case .
qed

lemma mset_remove_nth: "i < length xs \<Longrightarrow> mset (take i xs @ drop (Suc i) xs) = mset xs - {#xs ! i#}"
  by (metis add_mset_remove_trivial id_take_nth_drop mset.simps(2) mset_append union_mset_add_mset_right)

lemma in_permutations_iff:
  "xs \<noteq> [] \<Longrightarrow> ys \<in> set (permutations xs) \<longleftrightarrow>
     (\<exists>i zs. i < length xs \<and> zs \<in> set (permutations (take i xs @ drop (Suc i) xs)) \<and> ys = xs ! i # zs)"
  unfolding permutations_nonempty by auto

lemma permutations_sound: "ys \<in> set (permutations xs) \<Longrightarrow> mset ys = mset xs"
proof (induction xs arbitrary: ys rule: remove_nth_induct)
  case Nil
  then show ?case by simp
next
  case (Step xs)
  from Step.prems obtain i zs where i: "i < length xs"
     and zs: "zs \<in> set (permutations (take i xs @ drop (Suc i) xs))"
     and ys: "ys = xs ! i # zs"
    unfolding in_permutations_iff[OF Step.hyps] by blast
  have "mset zs = mset (take i xs @ drop (Suc i) xs)"
    using Step.IH[OF i zs] .
  also have "\<dots> = mset xs - {#xs ! i#}"
    using i by (rule mset_remove_nth)
  finally have "mset ys = add_mset (xs ! i) (mset xs - {#xs ! i#})"
    using ys by simp
  also have "\<dots> = mset xs"
    using i by (metis insert_DiffM nth_mem_mset)
  finally show ?case .
qed

lemma permutations_complete: "mset ys = mset xs \<Longrightarrow> ys \<in> set (permutations xs)"
proof (induction xs arbitrary: ys rule: remove_nth_induct)
  case Nil
  then show ?case by simp
next
  case (Step xs)
  from Step.prems Step.hyps obtain y zs where ys: "ys = y # zs"
    by (cases ys) auto
  have "y \<in> set xs"
    using Step.prems ys by (metis list.set_intros(1) mset_eq_setD)
  then obtain i where i: "i < length xs" and yi: "xs ! i = y"
    by (metis in_set_conv_nth)
  have "mset (take i xs @ drop (Suc i) xs) = mset xs - {#y#}"
    using i yi mset_remove_nth[of i xs] by simp
  also have "\<dots> = mset zs"
    using Step.prems ys by (metis add_mset_remove_trivial mset.simps(2))
  finally have "zs \<in> set (permutations (take i xs @ drop (Suc i) xs))"
    using Step.IH[OF i] by simp
  then show ?case unfolding in_permutations_iff[OF Step.hyps] using i yi ys by blast
qed

lemma permutations_first: "permutations xs ! 0 = xs"
proof (induction xs)
  case Nil
  show ?case by simp
next
  case (Cons x xs)
  have ne: "permutations xs \<noteq> []"
    using length_permutations[of xs] by (metis fact_nonzero length_0_conv of_nat_0 of_nat_fact)
  have "permutations (x # xs) = map ((#) x) (permutations xs) @ 
     concat (map (\<lambda>i. map ((#) ((x # xs) ! i)) (permutations (take i (x # xs) @ drop (Suc i) (x # xs)))) [1..<length (x # xs)])"
    by (simp add: upt_conv_Cons del: upt_Suc)
  then have "permutations (x # xs) ! 0 = map ((#) x) (permutations xs) ! 0"
    using ne by (simp add: nth_append del: permutations.simps)
  then show ?case using ne Cons by (simp del: permutations.simps)
qed

lemma distinct_remove_nth: "distinct xs \<Longrightarrow> distinct (take i xs @ drop (Suc i) xs)"
  using set_take_disj_set_drop_if_distinct[of xs i "Suc i"] by simp

lemma distinct_concat_upt:
  assumes "\<And>i. i < n \<Longrightarrow> distinct (f i)"
    and "\<And>i j. i < j \<Longrightarrow> j < n \<Longrightarrow> set (f i) \<inter> set (f j) = {}"
  shows "distinct (concat (map f [0..<n]))"
  using assms
proof (induction n)
  case 0
  show ?case by simp
next
  case (Suc n)
  have IH: "distinct (concat (map f [0..<n]))"
    using Suc by simp
  have "p \<notin> set (f n)" if "p \<in> set (concat (map f [0..<n]))" for p
  proof -
    from that obtain i where "i < n" "p \<in> set (f i)" by auto
    then show ?thesis using Suc.prems(2)[of i n] by blast
  qed
  then have "set (concat (map f [0..<n])) \<inter> set (f n) = {}"
    by blast
  then show ?case using IH Suc.prems(1)[of n] by simp
qed

lemma distinct_permutations: "distinct xs \<Longrightarrow> distinct (permutations xs)"
proof (induction xs rule: remove_nth_induct)
  case Nil
  show ?case by simp
next
  case (Step xs)
  define f where "f = (\<lambda>i. map ((#) (xs ! i)) (permutations (take i xs @ drop (Suc i) xs)))"
  have d: "distinct (f i)" if "i < length xs" for i
    unfolding f_def using Step.IH[OF that distinct_remove_nth[OF Step.prems]] by (simp add: distinct_map)
  have disj: "set (f i) \<inter> set (f j) = {}" if "i < j" "j < length xs" for i j
  proof -
    have "xs ! i \<noteq> xs ! j"
      using that Step.prems by (metis nth_eq_iff_index_eq order_less_trans less_irrefl)
    then show ?thesis unfolding f_def by auto
  qed
  have "distinct (concat (map f [0..<length xs]))"
    using d disj by (rule distinct_concat_upt)
  then show ?case unfolding permutations_nonempty[OF Step.hyps] f_def .
qed

subsection \<open>Pattern dictionary and argsort\<close>

lemma dict_fold_some:
  "distinct ps \<Longrightarrow> n \<le> length ps \<Longrightarrow> i < n \<Longrightarrow>
   fold (\<lambda>i d. d(ps ! i \<mapsto> i)) [0..<n] Map.empty (ps ! i) = Some i"
proof (induction n)
  case 0
  then show ?case by simp
next
  case (Suc n)
  show ?case
  proof (cases "i = n")
    case True
    then show ?thesis by simp
  next
    case False
    then have "i < n" using Suc.prems by simp
    moreover have "ps ! i \<noteq> ps ! n"
      using Suc.prems False by (simp add: nth_eq_iff_index_eq)
    ultimately show ?thesis using Suc by simp
  qed
qed

lemma dict_pattern_index_nth:
  "distinct ps \<Longrightarrow> i < length ps \<Longrightarrow> dict_pattern_index ps (ps ! i) = Some i"
  unfolding dict_pattern_index_def by (rule dict_fold_some) simp_all

lemma dict_pattern_index_mem:
  assumes "distinct ps" "p \<in> set ps"
  shows "\<exists>s. dict_pattern_index ps p = Some s \<and> s < length ps"
proof -
  from assms(2) obtain i where "i < length ps" "ps ! i = p"
    by (metis in_set_conv_nth)
  then show ?thesis using dict_pattern_index_nth[OF assms(1), of i] by auto
qed

lemma lookup_symbols_total:
  assumes "\<And>p. p \<in> set ps \<Longrightarrow> \<exists>s. d p = Some s \<and> s < N"
  shows "\<exists>ss. lookup_symbols d ps = Inr ss \<and> length ss = length ps \<and> (\<forall>s\<in>set ss. s < N)"
  using assms
proof (induction ps)
  case Nil
  show ?case by simp
next
  case (Cons p ps)
  from Cons.prems[of p] obtain s where s: "d p = Some s" "s < N" by auto
  from Cons.IH Cons.prems obtain ss where ss: "lookup_symbols d ps = Inr ss" "length ss = length ps" "\<forall>s\<in>set ss. s < N"
    by auto
  show ?case using s ss by simp
qed

lemma lookup_symbols_const:
  assumes "\<And>p. p \<in> set ps \<Longrightarrow> d p = Some s"
  shows "lookup_symbols d ps = Inr (replicate (length ps) s)"
  using assms by (induction ps) simp_all

lemma map_int_Suc_upt: "map (\<lambda>j. int j + 1) [0..<n] = [1..int n]"
proof (induction n)
  case 0
  show ?case by simp
next
  case (Suc n)
  have "[1..int (Suc n)] = [1..int n] @ [int n + 1]"
    using upto_rec2[of 1 "int n + 1"] by (simp add: add.commute)
  then show ?case using Suc by simp
qed

lemma mset_np_argsort: "mset (np_argsort row) = mset [0..<length row]"
proof -
  have "mset (np_argsort row) = image_mset snd (mset (zip row [0..<length row]))"
    unfolding np_argsort_def by simp
  also have "\<dots> = mset (map snd (zip row [0..<length row]))"
    by (simp only: mset_map)
  also have "map snd (zip row [0..<length row]) = [0..<length row]"
    by (simp only: map_snd_zip length_upt diff_zero)
  finally show ?thesis .
qed

lemma ordinal_pattern_in_permutations:
  "ordinal_pattern row \<in> set (permutations [1..int (length row)])"
proof -
  have "mset (ordinal_pattern row) = mset (map (\<lambda>j. int j + 1) [0..<length row])"
    unfolding ordinal_pattern_def using mset_np_argsort[of row] by (metis mset_map)
  then show ?thesis
    by (intro permutations_complete) (simp add: map_int_Suc_upt)
qed

lemma np_argsort_sorted: "sorted row \<Longrightarrow> np_argsort row = [0..<length row]"
  unfolding np_argsort_def by (simp add: sort_key_id_if_sorted)

lemma ordinal_pattern_sorted: "sorted row \<Longrightarrow> ordinal_pattern row = [1..int (length row)]"
  unfolding ordinal_pattern_def by (simp add: np_argsort_sorted map_int_Suc_upt)

lemma distinct_upto_int: "distinct [i..j::int]"
  by simp

subsection \<open>Embedding\<close>

lemma np_take_in_range:
  assumes "\<And>i. i \<in> set idxs \<Longrightarrow> 0 \<le> i \<and> i < int (length x)"
  shows "np_take x idxs = Inr (map (\<lambda>i. x ! nat i) idxs)"
proof -
  have "list_all (\<lambda>i. - int (length x) \<le> i \<and> i < int (length x)) idxs"
    using assms by (fastforce simp: list_all_iff)
  moreover have "map (\<lambda>i. x ! nat (if i < 0 then i + int (length x) else i)) idxs = map (\<lambda>i. x ! nat i) idxs"
    using assms by (intro map_cong refl) fastforce
  ultimately show ?thesis by (simp add: np_take_def)
qed

lemma np_take_out_of_range:
  assumes "i \<in> set idxs" "int (length x) \<le> i"
  shows "np_take x idxs = Inl IndexError"
proof -
  have "\<not> list_all (\<lambda>i. - int (length x) \<le> i \<and> i < int (length x)) idxs"
    using assms unfolding list_all_iff by fastforce
  then show ?thesis by (simp add: np_take_def)
qed

lemma np_c_map: "np_c (map f idxs) (map h idxs) = map (\<lambda>idx. f idx # h idx) idxs"
  unfolding np_c_def by (induction idxs) simp_all

lemma embed_cols_in_range:
  assumes "\<And>i idx. i \<in> set js \<Longrightarrow> idx \<in> set idxs \<Longrightarrow> 0 \<le> idx - i * tau \<and> idx - i * tau < int (length x)"
  shows "embed_cols x idxs tau js (map h idxs) =
         Inr (map (\<lambda>idx. map (\<lambda>i. x ! nat (idx - i * tau)) (rev js) @ h idx) idxs)"
  using assms
proof (induction js arbitrary: h)
  case Nil
  show ?case by simp
next
  case (Cons j js)
  have "np_take x (map (\<lambda>idx. idx - j * tau) idxs) = Inr (map (\<lambda>i. x ! nat i) (map (\<lambda>idx. idx - j * tau) idxs))"
    using Cons.prems by (intro np_take_in_range) auto
  then have take: "np_take x (map (\<lambda>idx. idx - j * tau) idxs) = Inr (map (\<lambda>idx. x ! nat (idx - j * tau)) idxs)"
    by (simp add: comp_def)
  have "embed_cols x idxs tau js (map (\<lambda>idx. x ! nat (idx - j * tau) # h idx) idxs) =
        Inr (map (\<lambda>idx. map (\<lambda>i. x ! nat (idx - i * tau)) (rev js) @ (x ! nat (idx - j * tau) # h idx)) idxs)"
    using Cons.prems by (intro Cons.IH) auto
  then show ?case
    by (simp add: take np_c_map)
qed

lemma build_embed_series_in_range:
  assumes m: "1 \<le> m" and ne: "idxs \<noteq> []"
    and rng: "\<And>i idx. 0 \<le> i \<Longrightarrow> i \<le> m - 1 \<Longrightarrow> idx \<in> set idxs \<Longrightarrow>
                0 \<le> idx - i * tau \<and> idx - i * tau < int (length x)"
  shows "build_embed_series x idxs m tau = Inr (map (delay_window x tau m) idxs)"
proof -
  have "np_take x idxs = Inr (map (\<lambda>i. x ! nat i) idxs)"
    using rng[of 0] m by (intro np_take_in_range) auto
  moreover have "embed_cols x idxs tau [1..m - 1] (map (\<lambda>idx. [x ! nat idx]) idxs) =
      Inr (map (\<lambda>idx. map (\<lambda>i. x ! nat (idx - i * tau)) (rev [1..m - 1]) @ [x ! nat idx]) idxs)"
    using rng by (intro embed_cols_in_range) auto
  moreover have "[0..m - 1] = 0 # [1..m - 1]"
    using m by (simp add: upto_rec1)
  ultimately show ?thesis
    using ne by (simp add: build_embed_series_def comp_def delay_window_def np_reshape_rows_def)
qed

lemma build_embed_series_empty: "build_embed_series x [] m tau = Inl ValueError"
proof -
  have "embed_cols x [] tau js [] = Inr []" for js
    by (induction js) (simp_all add: np_take_def np_c_def)
  then show ?thesis
    by (simp add: build_embed_series_def np_take_def np_reshape_rows_def)
qed

lemma length_delay_window: "length (delay_window x tau m idx) = nat m"
  by (simp add: delay_window_def)

lemma set_valid_idxs:
  "set (valid_idxs x m tau_x tau_y) = {idx. (m - 1) * max tau_x tau_y \<le> idx \<and> idx < int (length x)}"
  by (auto simp: valid_idxs_def np_arange_def)

lemma length_valid_idxs:
  "length (valid_idxs x m tau_x tau_y) = nat (int (length x) - (m - 1) * max tau_x tau_y)"
  by (simp add: valid_idxs_def np_arange_def)

lemma delay_index_bounds:
  fixes m tau M i idx :: int
  assumes "1 \<le> m" "0 \<le> tau" "tau \<le> M" "0 \<le> i" "i \<le> m - 1" "(m - 1) * M \<le> idx"
  shows "0 \<le> idx - i * tau" "idx - i * tau \<le> idx"
proof -
  have "i * tau \<le> (m - 1) * M"
    by (rule mult_mono) (use assms in auto)
  then show "0 \<le> idx - i * tau" using assms by linarith
  have "0 \<le> i * tau" using assms by simp
  then show "idx - i * tau \<le> idx" by linarith
qed

subsection \<open>The symbolizer as a whole\<close>

lemma valid_idxs_nonempty:
  "(m - 1) * max tau_x tau_y < int (length x) \<Longrightarrow> valid_idxs x m tau_x tau_y \<noteq> []"
  by (simp add: valid_idxs_def np_arange_def)

lemma valid_idxs_empty:
  "int (length x) \<le> (m - 1) * max tau_x tau_y \<Longrightarrow> valid_idxs x m tau_x tau_y = []"
  by (simp add: valid_idxs_def np_arange_def)

lemma embed_valid:
  assumes m: "1 \<le> m" and tau: "0 \<le> tau" "tau \<le> max tau_x tau_y"
    and ne: "(m - 1) * max tau_x tau_y < int (length x)" and len: "length x \<le> length s"
  shows "build_embed_series s (valid_idxs x m tau_x tau_y) m tau =
         Inr (map (delay_window s tau m) (valid_idxs x m tau_x tau_y))"
proof (rule build_embed_series_in_range[OF m valid_idxs_nonempty[OF ne]])
  fix i idx :: int
  assume i: "0 \<le> i" "i \<le> m - 1" and idx: "idx \<in> set (valid_idxs x m tau_x tau_y)"
  from idx have lo: "(m - 1) * max tau_x tau_y \<le> idx" and hi: "idx < int (length x)"
    by (simp_all add: set_valid_idxs)
  show "0 \<le> idx - i * tau \<and> idx - i * tau < int (length s)"
    using delay_index_bounds[OF m tau i lo] hi len by linarith
qed

lemma pattern_symbol:
  assumes "1 \<le> m" "length row = nat m"
  shows "\<exists>s. dict_pattern_index (permutations [1..m]) (ordinal_pattern row) = Some s \<and> s < fact (nat m)"
proof -
  have "ordinal_pattern row \<in> set (permutations [1..m])"
    using ordinal_pattern_in_permutations[of row] assms by simp
  moreover have "distinct (permutations [1..m])"
    by (rule distinct_permutations) simp
  ultimately obtain s where "dict_pattern_index (permutations [1..m]) (ordinal_pattern row) = Some s"
      "s < length (permutations [1..m])"
    using dict_pattern_index_mem by blast
  then show ?thesis by (auto simp: length_permutations)
qed

lemma symbols_of_windows:
  assumes "1 \<le> m"
  shows "\<exists>ss. lookup_symbols (dict_pattern_index (permutations [1..m]))
               (map ordinal_pattern (map (delay_window s tau m) idxs)) = Inr ss
            \<and> length ss = length idxs \<and> (\<forall>v\<in>set ss. v < fact (nat m))"
proof -
  have "\<exists>ss. lookup_symbols (dict_pattern_index (permutations [1..m]))
               (map ordinal_pattern (map (delay_window s tau m) idxs)) = Inr ss
            \<and> length ss = length (map ordinal_pattern (map (delay_window s tau m) idxs))
            \<and> (\<forall>v\<in>set ss. v < fact (nat m))"
  proof (rule lookup_symbols_total)
    fix p assume "p \<in> set (map ordinal_pattern (map (delay_window s tau m) idxs))"
    then obtain idx where "p = ordinal_pattern (delay_window s tau m idx)" by auto
    then show "\<exists>v. dict_pattern_index (permutations [1..m]) p = Some v \<and> v < fact (nat m)"
      using pattern_symbol[OF assms, of "delay_window s tau m idx"] by (simp add: length_delay_window)
  qed
  then show ?thesis by simp
qed

lemma symbolize_returns:
  assumes m: "1 \<le> m" and tx: "0 \<le> tau_x" and ty: "0 \<le> tau_y"
    and ne: "(m - 1) * max tau_x tau_y < int (length x)" and len: "length x \<le> length y"
  shows "\<exists>sx sy. continuously_symbolize x y m tau_x tau_y = Inr (sx, sy)
           \<and> lookup_symbols (dict_pattern_index (permutations [1..m]))
                (map ordinal_pattern (map (delay_window x tau_x m) (valid_idxs x m tau_x tau_y))) = Inr sx
           \<and> lookup_symbols (dict_pattern_index (permutations [1..m]))
                (map ordinal_pattern (map (delay_window y tau_y m) (valid_idxs x m tau_x tau_y))) = Inr sy"
proof -
  have ex: "build_embed_series x (valid_idxs x m tau_x tau_y) m tau_x =
         Inr (map (delay_window x tau_x m) (valid_idxs x m tau_x tau_y))"
    by (rule embed_valid[OF m tx _ ne]) simp_all
  have ey: "build_embed_series y (valid_idxs x m tau_x tau_y) m tau_y =
         Inr (map (delay_window y tau_y m) (valid_idxs x m tau_x tau_y))"
    by (rule embed_valid[OF m ty _ ne len]) simp
  obtain sx where sx: "lookup_symbols (dict_pattern_index (permutations [1..m]))
                (map ordinal_pattern (map (delay_window x tau_x m) (valid_idxs x m tau_x tau_y))) = Inr sx"
    using symbols_of_windows[OF m] by blast
  obtain sy where sy: "lookup_symbols (dict_pattern_index (permutations [1..m]))
                (map ordinal_pattern (map (delay_window y tau_y m) (valid_idxs x m tau_x tau_y))) = Inr sy"
    using symbols_of_windows[OF m] by blast
  have "continuously_symbolize x y m tau_x tau_y = Inr (sx, sy)"
    unfolding continuously_symbolize_def Let_def by (simp only: ex ey sx sy sum.case)
  then show ?thesis using sx sy by blast
qed

lemma symbolize_empty_range:
  assumes "int (length x) \<le> (m - 1) * max tau_x tau_y"
  shows "continuously_symbolize x y m tau_x tau_y = Inl ValueError"
  unfolding continuously_symbolize_def Let_def
  by (simp only: valid_idxs_empty[OF assms] build_embed_series_empty sum.case)

lemma symbolize_short_y:
  assumes m: "1 \<le> m" and tx: "0 \<le> tau_x" and ty: "0 \<le> tau_y"
    and ne: "(m - 1) * max tau_x tau_y < int (length x)" and len: "length y < length x"
  shows "continuously_symbolize x y m tau_x tau_y = Inl IndexError"
proof -
  have ex: "build_embed_series x (valid_idxs x m tau_x tau_y) m tau_x =
         Inr (map (delay_window x tau_x m) (valid_idxs x m tau_x tau_y))"
    by (rule embed_valid[OF m tx _ ne]) simp_all
  have "int (length x) - 1 \<in> set (valid_idxs x m tau_x tau_y)"
    using ne by (simp add: set_valid_idxs)
  then have "np_take y (valid_idxs x m tau_x tau_y) = Inl IndexError"
    by (rule np_take_out_of_range) (use len in simp)
  then have ey: "build_embed_series y (valid_idxs x m tau_x tau_y) m tau_y = Inl IndexError"
    by (simp add: build_embed_series_def)
  show ?thesis
    unfolding continuously_symbolize_def Let_def by (simp only: ex ey sum.case)
qed

subsection \<open>Degenerate configurations of the symbolizer\<close>

lemma sorted_const_map: "sorted (map (\<lambda>i. c) zs)"
  by (induction zs) auto

lemma identity_pattern_symbol:
  assumes "1 \<le> m"
  shows "dict_pattern_index (permutations [1..m]) [1..m] = Some 0"
proof -
  have d: "distinct (permutations [1..m])"
    by (rule distinct_permutations) simp
  have "0 < length (permutations [1..m])"
    by (simp add: length_permutations)
  then have "dict_pattern_index (permutations [1..m]) (permutations [1..m] ! 0) = Some 0"
    by (rule dict_pattern_index_nth[OF d])
  then show ?thesis by (simp only: permutations_first)
qed

lemma zero_delay_symbols:
  assumes m: "1 \<le> m"
  shows "lookup_symbols (dict_pattern_index (permutations [1..m]))
           (map ordinal_pattern (map (delay_window s 0 m) idxs)) = Inr (replicate (length idxs) 0)"
proof -
  have "lookup_symbols (dict_pattern_index (permutations [1..m]))
           (map ordinal_pattern (map (delay_window s 0 m) idxs))
        = Inr (replicate (length (map ordinal_pattern (map (delay_window s 0 m) idxs))) 0)"
  proof (rule lookup_symbols_const)
    fix p assume "p \<in> set (map ordinal_pattern (map (delay_window s 0 m) idxs))"
    then obtain idx where p: "p = ordinal_pattern (delay_window s 0 m idx)" by auto
    have "sorted (delay_window s 0 m idx)"
      by (simp add: delay_window_def sorted_const_map)
    then have "p = [1..int (length (delay_window s 0 m idx))]"
      unfolding p by (rule ordinal_pattern_sorted)
    then have "p = [1..m]" using m by (simp add: length_delay_window)
    then show "dict_pattern_index (permutations [1..m]) p = Some 0"
      using identity_pattern_symbol[OF m] by simp
  qed
  then show ?thesis by simp
qed

lemma symbolize_zero_delay:
  assumes m: "1 \<le> m" and ne: "x \<noteq> []" and len: "length x \<le> length y"
  shows "continuously_symbolize x y m 0 0 = Inr (replicate (length x) 0, replicate (length x) 0)"
proof -
  have rng: "(m - 1) * max 0 0 < int (length x)" using ne by simp
  obtain sx sy where r: "continuously_symbolize x y m 0 0 = Inr (sx, sy)"
    and sx: "lookup_symbols (dict_pattern_index (permutations [1..m]))
                (map ordinal_pattern (map (delay_window x 0 m) (valid_idxs x m 0 0))) = Inr sx"
    and sy: "lookup_symbols (dict_pattern_index (permutations [1..m]))
                (map ordinal_pattern (map (delay_window y 0 m) (valid_idxs x m 0 0))) = Inr sy"
    using symbolize_returns[OF m _ _ rng len] by auto
  have l: "length (valid_idxs x m 0 0) = length x"
    by (simp add: length_valid_idxs)
  have "sx = replicate (length (valid_idxs x m 0 0)) 0"
    using sx unfolding zero_delay_symbols[OF m] by simp
  moreover have "sy = replicate (length (valid_idxs x m 0 0)) 0"
    using sy unfolding zero_delay_symbols[OF m] by simp
  ultimately show ?thesis using r l by simp
qed

lemma embed_without_columns:
  assumes "m \<le> 0"
  shows "build_embed_series s idxs m tau =
         (case np_take s idxs of Inl e \<Rightarrow> Inl e | Inr col \<Rightarrow> np_reshape_rows (map (\<lambda>v. [v]) col))"
proof -
  have "[1..m - 1] = []" using assms by simp
  then show ?thesis
    by (simp add: build_embed_series_def split: sum.splits)
qed

lemma np_take_cases:
  "np_take s idxs = Inl IndexError \<or> (\<exists>col. length col = length idxs \<and> np_take s idxs = Inr col)"
  by (simp add: np_take_def)

lemma symbolize_bad_m:
  assumes m: "m < 1" and tx: "1 \<le> tau_x" and ty: "1 \<le> tau_y"
  shows "continuously_symbolize x y m tau_x tau_y = Inl IndexError
       \<or> continuously_symbolize x y m tau_x tau_y = Inl KeyError"
proof -
  let ?idxs = "valid_idxs x m tau_x tau_y"
  let ?d = "dict_pattern_index (permutations [1..m])"
  have "(m - 1) * max tau_x tau_y \<le> (- 1) * max tau_x tau_y"
    by (rule mult_right_mono) (use m tx in auto)
  then have "(m - 1) * max tau_x tau_y < int (length x)" using tx by linarith
  then have ne: "?idxs \<noteq> []" by (rule valid_idxs_nonempty)
  have "[1..m] = []" using m by simp
  then have d: "?d [1] = None"
    by (simp add: dict_pattern_index_def)
  have key: "lookup_symbols ?d (map ordinal_pattern (map (\<lambda>v. [v]) col)) = Inl KeyError"
    if "length col = length ?idxs" for col :: "'a list"
  proof -
    from that ne obtain v vs where "col = v # vs" by (cases col) auto
    then show ?thesis
      using d by (simp add: ordinal_pattern_def np_argsort_def)
  qed
  have mle: "m \<le> 0" using m by simp
  have rs: "np_reshape_rows (map (\<lambda>v. [v]) col) = Inr (map (\<lambda>v. [v]) col)"
    if "length col = length ?idxs" for col :: "'a list"
    using that ne by (simp add: np_reshape_rows_def)
  show ?thesis
  proof (cases "np_take x ?idxs")
    case (Inl e)
    then have "e = IndexError" using np_take_cases[of x ?idxs] by auto
    then show ?thesis using Inl
      by (simp add: continuously_symbolize_def Let_def embed_without_columns[OF mle])
  next
    case cx: (Inr cx)
    then have lx: "length cx = length ?idxs" using np_take_cases[of x ?idxs] by auto
    show ?thesis
    proof (cases "np_take y ?idxs")
      case (Inl e)
      then have "e = IndexError" using np_take_cases[of y ?idxs] by auto
      then show ?thesis using Inl cx rs[OF lx]
        by (simp add: continuously_symbolize_def Let_def embed_without_columns[OF mle])
    next
      case cy: (Inr cy)
      then have ly: "length cy = length ?idxs" using np_take_cases[of y ?idxs] by auto
      show ?thesis using cx cy rs[OF lx] rs[OF ly] key[OF lx]
        by (simp add: continuously_symbolize_def Let_def embed_without_columns[OF mle] del: map_map)
    qed
  qed
qed

section \<open>Properties of peak parsing\<close>

subsection \<open>Index lookups and the reference sample\<close>

lemma index_all_Inr:
  "index_all xs ps = Inr vs \<Longrightarrow> (\<forall>p\<in>set ps. p < length xs) \<and> vs = map ((!) xs) ps"
proof (induction ps arbitrary: vs)
  case Nil
  then show ?case by simp
next
  case (Cons p ps)
  then show ?case
    by (auto simp: py_index_def split: if_splits sum.splits)
qed

lemma index_all_in_range:
  "(\<And>p. p \<in> set ps \<Longrightarrow> p < length xs) \<Longrightarrow> index_all xs ps = Inr (map ((!) xs) ps)"
  by (induction ps) (simp_all add: py_index_def)

lemma edge_series_long:
  assumes "10 \<le> length td_lags"
  shows "edge_series td_lags means = spec_reference_sample (length td_lags div 10) means"
proof -
  have "0 < length td_lags div 10" using assms by simp
  then show ?thesis
    by (simp add: edge_series_def spec_reference_sample_def py_slice_to_def py_slice_from_def Let_def nat_diff_distrib')
qed

lemma edge_series_short:
  assumes "length td_lags < 10"
  shows "edge_series td_lags means = means"
  using assms by (simp add: edge_series_def py_slice_to_def py_slice_from_def)

lemma spec_reference_sample_0: "spec_reference_sample 0 xs = []"
  by (simp add: spec_reference_sample_def)

lemma parse_peaks_Inr:
  assumes "parse_peaks fp tau_x td_lags td_te_info ci thres distance prominence
             = Inr (idxs, taus, strengths, stds, signifs)"
    and "idxs \<noteq> []"
  shows "(\<forall>p\<in>set idxs. p < length td_lags \<and> p < length td_te_info)
       \<and> taus = map ((!) td_lags) idxs
       \<and> strengths = map ((!) (map fst td_te_info)) idxs
       \<and> stds = map ((!) (map snd td_te_info)) idxs
       \<and> signifs = map (peak_signif td_lags (map fst td_te_info) ci) idxs"
  using assms
  by (auto simp: parse_peaks_def Let_def split: sum.splits if_splits dest!: index_all_Inr)

lemma nan_gt_three_sigma:
  "nan_gt v (three_sigma_bound xs) \<longleftrightarrow>
     xs \<noteq> [] \<and> sum_list xs / real (length xs) < v
     \<and> 9 * (sum_list (map (\<lambda>x. (x - sum_list xs / real (length xs))\<^sup>2) xs) / real (length xs))
         < (v - sum_list xs / real (length xs))\<^sup>2"
proof (cases "xs = []")
  case True
  then show ?thesis by (simp add: nan_gt_def three_sigma_bound_def np_mean_def)
next
  case False
  define mu where "mu = sum_list xs / real (length xs)"
  define var where "var = sum_list (map (\<lambda>x. (x - mu)\<^sup>2) xs) / real (length xs)"
  have var0: "0 \<le> var"
    unfolding var_def by (intro divide_nonneg_nonneg sum_list_nonneg) auto
  have s9: "sqrt (9 * var) = 3 * sqrt var"
  proof -
    have "sqrt 9 = sqrt (3\<^sup>2)" by simp
    also have "\<dots> = 3" by (simp only: real_sqrt_abs abs_numeral)
    finally have "sqrt 9 = 3" .
    then show ?thesis by (simp only: real_sqrt_mult)
  qed
  have "mu + 3 * sqrt var < v \<longleftrightarrow> mu < v \<and> 9 * var < (v - mu)\<^sup>2"
  proof
    assume a: "mu + 3 * sqrt var < v"
    have "0 \<le> 3 * sqrt var" using var0 by simp
    then have pos: "mu < v" using a by linarith
    have "sqrt (9 * var) < v - mu" using a s9 by linarith
    then have "(sqrt (9 * var))\<^sup>2 < (v - mu)\<^sup>2"
      using var0 by (intro power_strict_mono) simp_all
    moreover have "(sqrt (9 * var))\<^sup>2 = 9 * var"
      using var0 by (intro real_sqrt_pow2) simp
    ultimately have "9 * var < (v - mu)\<^sup>2" by simp
    then show "mu < v \<and> 9 * var < (v - mu)\<^sup>2" using pos by simp
  next
    assume b: "mu < v \<and> 9 * var < (v - mu)\<^sup>2"
    then have "sqrt (9 * var) < sqrt ((v - mu)\<^sup>2)"
      by (simp only: real_sqrt_less_iff)
    then have "3 * sqrt var < \<bar>v - mu\<bar>" using s9 by simp
    then show "mu + 3 * sqrt var < v" using b by linarith
  qed
  moreover have "three_sigma_bound xs = Some (mu + 3 * sqrt var)"
    using False by (simp add: three_sigma_bound_def np_mean_def np_std_def mu_def var_def)
  ultimately show ?thesis
    using False by (simp add: nan_gt_def mu_def var_def)
qed

lemma long_grid_significance:
  assumes "10 \<le> length td_lags"
    and "parse_peaks fp tau_x td_lags td_te_info ci thres distance prominence
           = Inr (idxs, taus, strengths, stds, signifs)"
  shows "length strengths = length idxs \<and> length signifs = length idxs
       \<and> (\<forall>k<length idxs.
            signifs ! k =
              (ci < strengths ! k
               \<and> nan_gt (strengths ! k)
                    (three_sigma_bound (spec_reference_sample (length td_lags div 10) (map fst td_te_info)))))"
proof (cases "idxs = []")
  case True
  then show ?thesis using assms(2)
    by (auto simp: parse_peaks_def Let_def split: sum.splits if_splits)
next
  case False
  note r = parse_peaks_Inr[OF assms(2) False]
  have "signifs ! k = (ci < strengths ! k \<and> nan_gt (strengths ! k)
          (three_sigma_bound (spec_reference_sample (length td_lags div 10) (map fst td_te_info))))"
    if k: "k < length idxs" for k
  proof -
    have "signifs ! k = peak_signif td_lags (map fst td_te_info) ci (idxs ! k)"
      using r k by simp
    also have "\<dots> = (ci < map fst td_te_info ! (idxs ! k) \<and> nan_gt (map fst td_te_info ! (idxs ! k))
          (three_sigma_bound (spec_reference_sample (length td_lags div 10) (map fst td_te_info))))"
      by (simp add: peak_signif_def edge_series_long[OF assms(1)])
    also have "map fst td_te_info ! (idxs ! k) = strengths ! k"
      using r k by simp
    finally show ?thesis .
  qed
  then show ?thesis using r by simp
qed

subsection \<open>The peak finder on the example series\<close>

lemma find_peaks_example:
  assumes "0 < tau_x"
  shows "find_peaks [0.1, 0.1, 0.9, 0.2, 0.1, 0.1] 0.3 (2 * tau_x) 0.01 3 = Inr [2]"
proof -
  have "\<not> 2 * tau_x < 1" using assms by simp
  then show ?thesis
    by (simp add: find_peaks_def local_maxima_def select_by_peak_distance_def peak_prominence_def Let_def)
qed

lemma find_peaks_rejects_distance:
  "distance < 1 \<Longrightarrow> find_peaks x height distance prominence wlen = Inl ValueError"
  by (simp add: find_peaks_def)

lemma parse_peaks_rejects_distance:
  "d < 1 \<Longrightarrow> parse_peaks find_peaks tau_x td_lags td_te_info ci thres (Some d) prominence
              = Inl ValueError"
  by (simp add: parse_peaks_def Let_def find_peaks_rejects_distance)

lemma parse_peaks_rejects_default_distance:
  "tau_x < 1 \<Longrightarrow> parse_peaks find_peaks tau_x td_lags td_te_info ci thres None prominence
              = Inl ValueError"
  by (simp add: parse_peaks_def Let_def find_peaks_rejects_distance)

section \<open>Claims about the symbolizer\<close>

text \<open>
  Claim C2. For \<open>m \<ge> 1\<close>, \<open>tau_x \<ge> 1\<close>, \<open>tau_y \<ge> 1\<close> and a non-empty valid index
  range, \<open>continuously_symbolize\<close> returns two sequences of length
  \<open>len(x) - (m-1) max(tau_x, tau_y)\<close> whose symbols all lie in \<open>[0, m!)\<close>. The code
  indexes \<open>y\<close> with the indices computed from \<open>len(x)\<close>, so this holds when \<open>y\<close> is at
  least as long as \<open>x\<close>; with a shorter \<open>y\<close> the call raises \<open>IndexError\<close>.
\<close>

theorem symbolize_lengths_and_range:
  assumes "1 \<le> m" and "1 \<le> tau_x" and "1 \<le> tau_y"
    and "(m - 1) * max tau_x tau_y < int (length x)"
    and "length x \<le> length y"
  shows "\<exists>sx sy. continuously_symbolize x y m tau_x tau_y = Inr (sx, sy)
           \<and> int (length sx) = int (length x) - (m - 1) * max tau_x tau_y
           \<and> int (length sy) = int (length x) - (m - 1) * max tau_x tau_y
           \<and> (\<forall>s\<in>set sx. s < fact (nat m)) \<and> (\<forall>s\<in>set sy. s < fact (nat m))"
proof -
  let ?d = "dict_pattern_index (permutations [1..m])"
  let ?idxs = "valid_idxs x m tau_x tau_y"
  from assms obtain sx sy where r: "continuously_symbolize x y m tau_x tau_y = Inr (sx, sy)"
    and sx: "lookup_symbols ?d (map ordinal_pattern (map (delay_window x tau_x m) ?idxs)) = Inr sx"
    and sy: "lookup_symbols ?d (map ordinal_pattern (map (delay_window y tau_y m) ?idxs)) = Inr sy"
    using symbolize_returns[of m tau_x tau_y x y] by auto
  have len: "int (length ?idxs) = int (length x) - (m - 1) * max tau_x tau_y"
    using assms(4) by (simp add: length_valid_idxs)
  from symbols_of_windows[OF assms(1), of x tau_x ?idxs] sx
  have px: "length sx = length ?idxs" "\<forall>s\<in>set sx. s < fact (nat m)" by auto
  from symbols_of_windows[OF assms(1), of y tau_y ?idxs] sy
  have py: "length sy = length ?idxs" "\<forall>s\<in>set sy. s < fact (nat m)" by auto
  show ?thesis using r len px py by auto
qed

theorem symbolize_lengths_and_range_witness:
  "\<exists>sx sy. continuously_symbolize [1, 3, 2, 5 :: int] [4, 6, 7, 9, 8] 3 1 1 = Inr (sx, sy)
           \<and> int (length sx) = int (length [1, 3, 2, 5 :: int]) - (3 - 1) * max 1 1
           \<and> int (length sy) = int (length [1, 3, 2, 5 :: int]) - (3 - 1) * max 1 1
           \<and> (\<forall>s\<in>set sx. s < fact (nat 3)) \<and> (\<forall>s\<in>set sy. s < fact (nat 3))"
  by (rule symbolize_lengths_and_range) simp_all

text \<open>
  With \<open>x = [1, 2]\<close>, \<open>y = [1]\<close>, \<open>m = 1\<close> and both delays 1 the hypotheses of C2 as
  stated hold, and the call raises instead of returning two sequences of length 2.
\<close>

theorem symbolize_short_y_counterexample:
  "(1::int) \<le> 1 \<and> (1 - 1) * max 1 1 < int (length [1, 2 :: int])
     \<and> continuously_symbolize [1, 2 :: int] [1] 1 1 1 = Inl IndexError"
  by code_simp

text \<open>
  Claim C4. When the valid index range is empty, \<open>len(x) \<le> (m-1) max(tau_x, tau_y)\<close>,
  the claim expects two empty sequences and no exception. In the code the embedding of
  an empty index array has zero rows, and its final \<open>reshape(len(X_embed), -1)\<close> raises
  \<open>ValueError\<close>: the call never returns empty sequences.
\<close>

theorem symbolize_empty_range_raises:
  assumes "int (length x) \<le> (m - 1) * max tau_x tau_y"
  shows "continuously_symbolize x y m tau_x tau_y = Inl ValueError"
  using assms by (rule symbolize_empty_range)

theorem symbolize_empty_range_raises_witness:
  "continuously_symbolize [1, 2 :: int] [3, 4] 3 1 2 = Inl ValueError"
  by (rule symbolize_empty_range_raises) simp

theorem symbolize_empty_range_counterexample:
  "int (length [1 :: int]) \<le> (2 - 1) * max 1 1
     \<and> continuously_symbolize [1 :: int] [1] 2 1 1 \<noteq> Inr ([], [])
     \<and> continuously_symbolize [1 :: int] [1] 2 1 1 = Inl ValueError"
  by code_simp

text \<open>
  Claim C5. For \<open>x = y = [1,3,2,5,4,6,7,9,8,10]\<close>, \<open>m = 2\<close> and both delays 1 the valid
  indices start at 1 and both returned sequences are identical. The code maps an
  ascending pair to symbol 0 and a descending pair to symbol 1 (the identity
  permutation \<open>(1, 2)\<close> is the first dictionary entry); the claim states the opposite
  assignment.
\<close>

theorem symbolize_example:
  "valid_idxs [1, 3, 2, 5, 4, 6, 7, 9, 8, 10 :: int] 2 1 1 = [1, 2, 3, 4, 5, 6, 7, 8, 9]
   \<and> map (delay_window [1, 3, 2, 5, 4, 6, 7, 9, 8, 10 :: int] 1 2) [1, 2, 3, 4, 5, 6, 7, 8, 9]
       = [[1, 3], [3, 2], [2, 5], [5, 4], [4, 6], [6, 7], [7, 9], [9, 8], [8, 10]]
   \<and> continuously_symbolize [1, 3, 2, 5, 4, 6, 7, 9, 8, 10 :: int] [1, 3, 2, 5, 4, 6, 7, 9, 8, 10] 2 1 1
       = Inr ([0, 1, 0, 1, 0, 0, 0, 1, 0], [0, 1, 0, 1, 0, 0, 0, 1, 0])"
  by code_simp

text \<open>
  The pattern the claim predicts (1 for each ascending pair, 0 for each descending one) is
  not what the call returns; the first pair \<open>(1, 3)\<close> is ascending.
\<close>

theorem symbolize_example_counterexample:
  "(1::int) < 3
   \<and> continuously_symbolize [1, 3, 2, 5, 4, 6, 7, 9, 8, 10 :: int] [1, 3, 2, 5, 4, 6, 7, 9, 8, 10] 2 1 1
       \<noteq> Inr ([1, 0, 1, 0, 1, 1, 1, 0, 1], [1, 0, 1, 0, 1, 1, 1, 0, 1])"
  by code_simp

text \<open>
  Claim C8. With series of differing length the claim expects every valid index to lie
  below \<open>len(y)\<close> as well. The code computes the index range from \<open>len(x)\<close> alone and
  uses that one range for both series: every valid index satisfies
  \<open>(m-1) max(tau_x, tau_y) \<le> idx < len(x)\<close>; when \<open>y\<close> is at least as long as \<open>x\<close> every
  access into both series stays in bounds; when \<open>y\<close> is shorter and the range is not empty
  the call raises \<open>IndexError\<close>.
\<close>

theorem valid_idxs_overlap:
  assumes "1 \<le> m" and "1 \<le> tau_x" and "1 \<le> tau_y"
  shows "(\<forall>idx\<in>set (valid_idxs x m tau_x tau_y).
            (m - 1) * max tau_x tau_y \<le> idx \<and> idx < int (length x))
       \<and> (length x \<le> length y \<longrightarrow>
            (\<forall>idx\<in>set (valid_idxs x m tau_x tau_y). \<forall>i\<in>set [0..m - 1].
               0 \<le> idx - i * tau_x \<and> idx - i * tau_x < int (length x)
             \<and> 0 \<le> idx - i * tau_y \<and> idx - i * tau_y < int (length y)))
       \<and> (length y < length x \<and> (m - 1) * max tau_x tau_y < int (length x) \<longrightarrow>
            continuously_symbolize x y m tau_x tau_y = Inl IndexError)"
proof (intro conjI impI ballI)
  fix idx assume "idx \<in> set (valid_idxs x m tau_x tau_y)"
  then show "(m - 1) * max tau_x tau_y \<le> idx" "idx < int (length x)"
    by (simp_all add: set_valid_idxs)
next
  fix idx i
  assume len: "length x \<le> length y" and idx: "idx \<in> set (valid_idxs x m tau_x tau_y)"
    and i: "i \<in> set [0..m - 1]"
  from idx have lo: "(m - 1) * max tau_x tau_y \<le> idx" and hi: "idx < int (length x)"
    by (simp_all add: set_valid_idxs)
  from i have i0: "0 \<le> i" and i1: "i \<le> m - 1" by simp_all
  have bx: "0 \<le> idx - i * tau_x" "idx - i * tau_x \<le> idx"
    by (rule delay_index_bounds[OF assms(1) _ _ i0 i1 lo]; use assms in simp)+
  have by': "0 \<le> idx - i * tau_y" "idx - i * tau_y \<le> idx"
    by (rule delay_index_bounds[OF assms(1) _ _ i0 i1 lo]; use assms in simp)+
  show "0 \<le> idx - i * tau_x" by (rule bx)
  show "idx - i * tau_x < int (length x)" using bx hi by linarith
  show "0 \<le> idx - i * tau_y" by (rule by')
  show "idx - i * tau_y < int (length y)" using by' hi len by linarith
next
  assume "length y < length x \<and> (m - 1) * max tau_x tau_y < int (length x)"
  then show "continuously_symbolize x y m tau_x tau_y = Inl IndexError"
    using assms by (intro symbolize_short_y) auto
qed

theorem valid_idxs_overlap_witness:
  "3 \<in> set (valid_idxs [1, 3, 2, 5 :: int] 2 1 2)
   \<and> (2 - 1) * max 1 2 \<le> (3 :: int) \<and> (3 :: int) < int (length [1, 3, 2, 5 :: int])
   \<and> (0 :: int) \<le> 3 - 1 * 1 \<and> (3 :: int) - 1 * 1 < int (length [1, 3, 2, 5 :: int])
   \<and> (0 :: int) \<le> 3 - 1 * 2 \<and> (3 :: int) - 1 * 2 < int (length [4, 6, 7, 9, 8 :: int])
   \<and> continuously_symbolize [1, 3, 2, 5 :: int] [4, 6] 2 1 2 = Inl IndexError"
  using valid_idxs_overlap[of 2 1 2 "[1, 3, 2, 5 :: int]" "[4, 6, 7, 9, 8 :: int]"]
    valid_idxs_overlap[of 2 1 2 "[1, 3, 2, 5 :: int]" "[4, 6 :: int]"]
  by (simp add: set_valid_idxs)

text \<open>
  With \<open>x = [1, 2, 3]\<close>, \<open>y = [1]\<close>, \<open>m = 1\<close> the index 2 is a valid index of the code and
  is not below \<open>len(y)\<close>.
\<close>

theorem valid_idxs_overlap_counterexample:
  "2 \<in> set (valid_idxs [1, 2, 3 :: int] 1 1 1) \<and> \<not> 2 < int (length [1 :: int])
   \<and> continuously_symbolize [1, 2, 3 :: int] [1] 1 1 1 = Inl IndexError"
  by code_simp

text \<open>
  Claim C10. For \<open>m \<ge> 1\<close> and delays \<open>\<ge> 1\<close>, every index \<open>idx - i tau\<close> that the embedding
  reads, \<open>0 \<le> i \<le> m - 1\<close>, with either series' own delay, is non-negative, so numpy's
  wrap-around of negative indices never happens, and the embedding the code builds is
  exactly the matrix of delay windows (for \<open>y\<close>: when it is at least as long as \<open>x\<close>).
\<close>

theorem embedding_reads_no_negative_index:
  assumes "1 \<le> m" and "1 \<le> tau_x" and "1 \<le> tau_y"
  shows "(\<forall>idx\<in>set (valid_idxs x m tau_x tau_y). \<forall>i\<in>set [0..m - 1].
            0 \<le> idx - i * tau_x \<and> 0 \<le> idx - i * tau_y)
       \<and> ((m - 1) * max tau_x tau_y < int (length x) \<longrightarrow>
            build_embed_series x (valid_idxs x m tau_x tau_y) m tau_x
              = Inr (map (delay_window x tau_x m) (valid_idxs x m tau_x tau_y)))
       \<and> ((m - 1) * max tau_x tau_y < int (length x) \<and> length x \<le> length y \<longrightarrow>
            build_embed_series y (valid_idxs x m tau_x tau_y) m tau_y
              = Inr (map (delay_window y tau_y m) (valid_idxs x m tau_x tau_y)))"
proof (intro conjI impI ballI)
  fix idx i
  assume idx: "idx \<in> set (valid_idxs x m tau_x tau_y)" and i: "i \<in> set [0..m - 1]"
  from idx have lo: "(m - 1) * max tau_x tau_y \<le> idx"
    by (simp add: set_valid_idxs)
  from i have i0: "0 \<le> i" and i1: "i \<le> m - 1" by simp_all
  show "0 \<le> idx - i * tau_x"
    by (rule delay_index_bounds[OF assms(1) _ _ i0 i1 lo]; use assms in simp)
  show "0 \<le> idx - i * tau_y"
    by (rule delay_index_bounds[OF assms(1) _ _ i0 i1 lo]; use assms in simp)
next
  assume ne: "(m - 1) * max tau_x tau_y < int (length x)"
  show "build_embed_series x (valid_idxs x m tau_x tau_y) m tau_x
              = Inr (map (delay_window x tau_x m) (valid_idxs x m tau_x tau_y))"
    by (rule embed_valid[OF assms(1) _ _ ne]; use assms in simp)
next
  assume "(m - 1) * max tau_x tau_y < int (length x) \<and> length x \<le> length y"
  then have ne: "(m - 1) * max tau_x tau_y < int (length x)" and len: "length x \<le> length y"
    by simp_all
  show "build_embed_series y (valid_idxs x m tau_x tau_y) m tau_y
              = Inr (map (delay_window y tau_y m) (valid_idxs x m tau_x tau_y))"
    by (rule embed_valid[OF assms(1) _ _ ne len]; use assms in simp)
qed

theorem embedding_reads_no_negative_index_witness:
  "3 \<in> set (valid_idxs [1, 3, 2, 5 :: int] 2 1 2)
   \<and> (0 :: int) \<le> 3 - 1 * 1 \<and> (0 :: int) \<le> 3 - 1 * 2
   \<and> build_embed_series [1, 3, 2, 5 :: int] (valid_idxs [1, 3, 2, 5 :: int] 2 1 2) 2 1
        = Inr (map (delay_window [1, 3, 2, 5 :: int] 1 2) (valid_idxs [1, 3, 2, 5 :: int] 2 1 2))
   \<and> build_embed_series [4, 6, 7, 9, 8 :: int] (valid_idxs [1, 3, 2, 5 :: int] 2 1 2) 2 2
        = Inr (map (delay_window [4, 6, 7, 9, 8 :: int] 2 2) (valid_idxs [1, 3, 2, 5 :: int] 2 1 2))
   \<and> map (delay_window [4, 6, 7, 9, 8 :: int] 2 2) (valid_idxs [1, 3, 2, 5 :: int] 2 1 2) = [[4, 7], [6, 9]]"
  using embedding_reads_no_negative_index[of 2 1 2 "[1, 3, 2, 5 :: int]" "[4, 6, 7, 9, 8 :: int]"]
  by (simp add: set_valid_idxs valid_idxs_def np_arange_def delay_window_def upto_rec1)

text \<open>
  Claim C6. The claim expects both operations to reject an invalid configuration
  (non-positive \<open>distance\<close>, \<open>m < 1\<close>, \<open>tau < 1\<close>) with a validation error before any
  computation, and never to clamp. For \<open>parse_peaks\<close> this holds through the peak finder:
  a \<open>distance < 1\<close>, given or derived as \<open>2 * tau_x\<close> from a \<open>tau_x < 1\<close>, reaches the
  finder unchanged and the finder raises \<open>ValueError\<close> before it looks for a peak. The
  symbolizer checks nothing. A delay of 0 is accepted: every window is constant and every
  symbol is 0. An \<open>m < 1\<close> (with delays \<open>\<ge> 1\<close>) always ends in an exception, but one
  raised while indexing or at the dictionary lookup, after the embedding was built.
\<close>

theorem configuration_rejection:
  "(d < 1 \<longrightarrow>
      parse_peaks find_peaks tau td_lags td_te_info ci thres (Some d) prominence = Inl ValueError)
   \<and> (tau < 1 \<longrightarrow>
      parse_peaks find_peaks tau td_lags td_te_info ci thres None prominence = Inl ValueError)
   \<and> (1 \<le> m \<and> x \<noteq> [] \<and> length x \<le> length y \<longrightarrow>
      continuously_symbolize x y m 0 0 = Inr (replicate (length x) 0, replicate (length x) 0))
   \<and> (m < 1 \<and> 1 \<le> tau_x \<and> 1 \<le> tau_y \<longrightarrow>
      continuously_symbolize x y m tau_x tau_y = Inl IndexError
      \<or> continuously_symbolize x y m tau_x tau_y = Inl KeyError)"
proof (intro conjI impI)
  assume "d < 1"
  then show "parse_peaks find_peaks tau td_lags td_te_info ci thres (Some d) prominence = Inl ValueError"
    by (rule parse_peaks_rejects_distance)
next
  assume "tau < 1"
  then show "parse_peaks find_peaks tau td_lags td_te_info ci thres None prominence = Inl ValueError"
    by (rule parse_peaks_rejects_default_distance)
next
  assume "1 \<le> m \<and> x \<noteq> [] \<and> length x \<le> length y"
  then show "continuously_symbolize x y m 0 0 = Inr (replicate (length x) 0, replicate (length x) 0)"
    by (intro symbolize_zero_delay) auto
next
  assume "m < 1 \<and> 1 \<le> tau_x \<and> 1 \<le> tau_y"
  then show "continuously_symbolize x y m tau_x tau_y = Inl IndexError
           \<or> continuously_symbolize x y m tau_x tau_y = Inl KeyError"
    by (intro symbolize_bad_m) auto
qed

theorem configuration_rejection_witness:
  "parse_peaks find_peaks 1 [0, 1, 2, 3, 4, 5 :: int]
      [(0.1, 0), (0.1, 0), (0.9, 0), (0.2, 0), (0.1, 0), (0.1, 0)] 0.3 None (Some 0) None = Inl ValueError
   \<and> parse_peaks find_peaks 0 [0, 1, 2, 3, 4, 5 :: int]
      [(0.1, 0), (0.1, 0), (0.9, 0), (0.2, 0), (0.1, 0), (0.1, 0)] 0.3 None None None = Inl ValueError
   \<and> continuously_symbolize [1, 2, 3 :: int] [4, 5, 6, 7] 2 0 0 = Inr ([0, 0, 0], [0, 0, 0])
   \<and> continuously_symbolize [1, 2, 3 :: int] [1, 2, 3] 0 1 1 = Inl KeyError"
proof -
  have k: "continuously_symbolize [1, 2, 3 :: int] [1, 2, 3] 0 1 1 \<noteq> Inl IndexError"
    by code_simp
  show ?thesis
    using configuration_rejection[where d = 0 and tau = 1 and td_lags = "[0, 1, 2, 3, 4, 5 :: int]"
            and td_te_info = "[(0.1, 0), (0.1, 0), (0.9, 0), (0.2, 0), (0.1, 0), (0.1, 0)]"
            and ci = "0.3" and thres = None and prominence = None
            and m = 2 and x = "[1, 2, 3 :: int]" and y = "[4, 5, 6, 7]" and tau_x = 1 and tau_y = 1]
      configuration_rejection[where d = 0 and tau = 0 and td_lags = "[0, 1, 2, 3, 4, 5 :: int]"
            and td_te_info = "[(0.1, 0), (0.1, 0), (0.9, 0), (0.2, 0), (0.1, 0), (0.1, 0)]"
            and ci = "0.3" and thres = None and prominence = None
            and m = 0 and x = "[1, 2, 3 :: int]" and y = "[1, 2, 3]" and tau_x = 1 and tau_y = 1] k
    by simp
qed

text \<open>
  With both delays 0 the call returns: nothing is rejected. With \<open>m = 0\<close> the exception
  depends on the data, \<open>KeyError\<close> from the dictionary or \<open>IndexError\<close> from indexing a
  shorter \<open>y\<close>: no check of \<open>m\<close> runs before the computation.
\<close>

theorem configuration_rejection_counterexample:
  "(0 :: int) < 1
   \<and> continuously_symbolize [1, 2, 3 :: int] [1, 2, 3] 2 0 0 = Inr ([0, 0, 0], [0, 0, 0])
   \<and> continuously_symbolize [1, 2, 3 :: int] [1, 2, 3] 0 1 1 = Inl KeyError
   \<and> continuously_symbolize [1, 2, 3 :: int] [1] 0 1 1 = Inl IndexError"
  by code_simp

section \<open>Claims about peak parsing\<close>

text \<open>
  Claim C1. The significance flag of each returned peak is to be true if and only if its
  strength exceeds \<open>ci_bg_ub\<close> and exceeds \<open>mu + 3 sigma\<close>, with \<open>mu\<close> and \<open>sigma\<close> the mean
  and standard deviation of the first and last \<open>len(td_lags) div 10\<close> mean-TE values.
  For a grid of at least 10 lags the code does so (\<open>long_grid_significance\<close>). For a
  shorter grid, \<open>N = 0\<close>, the code's sample is the whole series (the slice \<open>[-0:]\<close> of
  claim C3) and the flag differs: with 5 lags and 20 statistics, one mean of 10 at index
  2 among zeros, the peak is flagged significant against the bound of the whole series,
  where the first and last 0 values are the empty sample, whose mean and standard
  deviation are undefined, and the flag of the claim is false.
\<close>

theorem short_grid_significance_flag:
  "length [0, 1, 2, 3, 4 :: int] div 10 = 0
   \<and> parse_peaks find_peaks 1 [0, 1, 2, 3, 4 :: int]
        [(0, 0), (0, 0), (10, 0), (0, 0), (0, 0), (0, 0), (0, 0), (0, 0), (0, 0), (0, 0),
         (0, 0), (0, 0), (0, 0), (0, 0), (0, 0), (0, 0), (0, 0), (0, 0), (0, 0), (0, 0)]
        1 None None None
      = Inr ([2], [2], [10], [0], [True])
   \<and> edge_series [0, 1, 2, 3, 4 :: int]
        [0, 0, 10, 0, 0, 0, 0, 0, 0, 0, 0, 0, 0, 0, 0, 0, 0, 0, 0, 0]
      = [0, 0, 10, 0, 0, 0, 0, 0, 0, 0, 0, 0, 0, 0, 0, 0, 0, 0, 0, 0]
   \<and> spec_reference_sample 0 [0, 0, 10, 0, 0, 0, 0, 0, 0, 0, 0, 0, 0, 0, 0, 0, 0, 0, 0, 0 :: real] = []
   \<and> three_sigma_bound [] = None
   \<and> ((1 < (10 :: real) \<and> nan_gt 10 (three_sigma_bound [])) = False)"
proof -
  let ?means = "[0, 0, 10, 0, 0, 0, 0, 0, 0, 0, 0, 0, 0, 0, 0, 0, 0, 0, 0, 0 :: real]"
  have w: "max 2 (length [0, 1, 2, 3, 4 :: int] div 2) = 2"
    by simp
  have fp: "find_peaks ?means 1 (2 * 1) 0.01 2 = Inr [2]"
    by (simp add: find_peaks_def local_maxima_def select_by_peak_distance_def peak_prominence_def Let_def)
  have es: "edge_series [0, 1, 2, 3, 4 :: int] ?means = ?means"
    by (rule edge_series_short) simp
  have sg: "peak_signif [0, 1, 2, 3, 4 :: int] ?means 1 2 = True"
    by (simp add: peak_signif_def es nan_gt_three_sigma power2_eq_square)
  have ix: "index_all [0, 1, 2, 3, 4 :: int] [2] = Inr [2]"
    "index_all ?means [2] = Inr [10]"
    "index_all [0, 0, 0, 0, 0, 0, 0, 0, 0, 0, 0, 0, 0, 0, 0, 0, 0, 0, 0, 0 :: real] [2] = Inr [0]"
    by (simp_all add: py_index_def)
  have pp: "parse_peaks find_peaks 1 [0, 1, 2, 3, 4 :: int]
        [(0, 0), (0, 0), (10, 0), (0, 0), (0, 0), (0, 0), (0, 0), (0, 0), (0, 0), (0, 0),
         (0, 0), (0, 0), (0, 0), (0, 0), (0, 0), (0, 0), (0, 0), (0, 0), (0, 0), (0, 0)]
        1 None None None
      = Inr ([2], [2], [10], [0], [True])"
    unfolding parse_peaks_def Let_def
    by (simp only: option.case list.map fst_conv snd_conv w fp sum.case ix sg)
       simp
  have bound: "three_sigma_bound [] = None"
    by (simp add: three_sigma_bound_def np_mean_def)
  show ?thesis
    using pp es bound by (simp add: spec_reference_sample_def nan_gt_def)
qed

text \<open>
  Claim C3. For a lag grid shorter than 10, \<open>N = 0\<close>, the claim expects an empty
  reference sample with undefined mean and standard deviation. The code slices
  \<open>td_te_means[-0:]\<close>, which is the whole list: on the six-lag series below the sample
  is all six means, with mean 0.25 and a defined standard deviation, where the first and
  last 0 values are the empty sample.
\<close>

theorem short_grid_reference_sample:
  "edge_series [0, 1, 2, 3, 4, 5 :: int] [0.1, 0.1, 0.9, 0.2, 0.1, 0.1] = [0.1, 0.1, 0.9, 0.2, 0.1, 0.1]
   \<and> np_mean (edge_series [0, 1, 2, 3, 4, 5 :: int] [0.1, 0.1, 0.9, 0.2, 0.1, 0.1]) = Some 0.25
   \<and> np_std (edge_series [0, 1, 2, 3, 4, 5 :: int] [0.1, 0.1, 0.9, 0.2, 0.1, 0.1]) = Some (sqrt (103 / 1200))
   \<and> spec_reference_sample (length [0, 1, 2, 3, 4, 5 :: int] div 10) [0.1, 0.1, 0.9, 0.2, 0.1, 0.1 :: real] = []
   \<and> np_mean [] = None \<and> np_std [] = None"
  by (simp add: edge_series_short spec_reference_sample_def np_mean_def np_std_def power2_eq_square)

text \<open>
  Claim C7. For the lag grid \<open>0..5\<close>, means \<open>[0.1, 0.1, 0.9, 0.2, 0.1, 0.1]\<close>, any
  standard deviations, \<open>ci_bg_ub = 0.3\<close>, the default configuration and any positive
  \<open>tau_x\<close>, \<open>parse_peaks\<close> with the modelled peak finder returns exactly one peak: index
  2, lag 2, strength 0.9 (not significant).
\<close>

theorem parse_peaks_example:
  assumes "0 < tau_x"
  shows "parse_peaks find_peaks tau_x [0, 1, 2, 3, 4, 5 :: int]
           [(0.1, s0), (0.1, s1), (0.9, s2), (0.2, s3), (0.1, s4), (0.1, s5)] 0.3 None None None
         = Inr ([2], [2], [0.9], [s2], [False])"
proof -
  have w: "max 2 (length [0, 1, 2, 3, 4, 5 :: int] div 2) = 3"
    by simp
  have fp: "find_peaks [0.1, 0.1, 0.9, 0.2, 0.1, 0.1] 0.3 (2 * tau_x) 0.01 3 = Inr [2]"
    using assms by (rule find_peaks_example)
  have sg: "peak_signif [0, 1, 2, 3, 4, 5 :: int] [0.1, 0.1, 0.9, 0.2, 0.1, 0.1] 0.3 2 = False"
    by (simp add: peak_signif_def edge_series_short nan_gt_three_sigma power2_eq_square)
  have ix: "index_all [0, 1, 2, 3, 4, 5 :: int] [2] = Inr [2]"
    "index_all [0.1, 0.1, 0.9, 0.2, 0.1, 0.1 :: real] [2] = Inr [0.9]"
    "index_all [s0, s1, s2, s3, s4, s5] [2] = Inr [s2]"
    by (simp_all add: py_index_def)
  show ?thesis
    unfolding parse_peaks_def Let_def
    by (simp only: option.case list.map fst_conv snd_conv w fp sum.case ix sg)
       simp
qed

theorem parse_peaks_example_witness:
  "parse_peaks find_peaks 3 [0, 1, 2, 3, 4, 5 :: int]
           [(0.1, 0.01), (0.1, 0.02), (0.9, 0.03), (0.2, 0.04), (0.1, 0.05), (0.1, 0.06)] 0.3 None None None
         = Inr ([2], [2], [0.9], [0.03], [False])"
  by (rule parse_peaks_example) simp

end
